theory Spec2Isabelle
  imports Main "HOL-Library.Word"
begin

section \<open>The comment collection\<close>

text \<open>
  Object ids and user ids are the hexadecimal strings that the code compares with
  \<^verbatim>\<open>toString()\<close>. Every id handed to the model is taken to be a well-formed
  ObjectId, so that casting never throws. Dates are milliseconds, a natural number.
\<close>

type_synonym oid = string

text \<open>
  A JavaScript string is a sequence of UTF-16 code units; \<^verbatim>\<open>length\<close> counts them and
  \<^verbatim>\<open>trim()\<close> works on them. The comment text is modelled so. \<open>js\<close> writes a string of
  code points below 256 from a character literal.
\<close>

type_synonym jsstring = "16 word list"

definition js :: "string \<Rightarrow> jsstring" where
  "js str = map (\<lambda>ch. of_nat (of_char ch)) str"

text \<open>
  A document of \<^verbatim>\<open>CommentSchema\<close>. The field \<^verbatim>\<open>_id\<close> is written \<open>cid\<close>;
  \<^verbatim>\<open>upvotes\<close> and \<^verbatim>\<open>downvotes\<close> are arrays, so lists with order and possible
  duplicates.
\<close>

record comment =
  cid :: oid
  content :: jsstring
  author :: oid
  blog :: oid
  parentComment :: "oid option"
  upvotes :: "oid list"
  downvotes :: "oid list"
  isEdited :: bool
  createdAt :: nat
  updatedAt :: nat

text \<open>The virtual \<^verbatim>\<open>voteScore\<close>: \<^verbatim>\<open>this.upvotes.length - this.downvotes.length\<close>.\<close>

definition voteScore :: "comment \<Rightarrow> int" where
  "voteScore c = int (length (upvotes c)) - int (length (downvotes c))"

text \<open>The decoded token: \<^verbatim>\<open>req.user\<close> and \<^verbatim>\<open>socket.user\<close>, \<^verbatim>\<open>{ id, role }\<close>.\<close>

record user =
  user_id :: oid
  role :: string

text \<open>
  The database: the ids of the Blog collection (all the code asks of a blog is whether
  \<^verbatim>\<open>Blog.findById\<close> finds it) and the Comment collection in insertion order.
\<close>

record db =
  blogs :: "oid list"
  comments :: "comment list"

definition Blog_findById :: "db \<Rightarrow> oid \<Rightarrow> bool" where
  "Blog_findById s b = (b \<in> set (blogs s))"

definition Comment_findById :: "db \<Rightarrow> oid \<Rightarrow> comment option" where
  "Comment_findById s i = find (\<lambda>c. cid c = i) (comments s)"

text \<open>\<^verbatim>\<open>Comment.deleteMany({ parentComment: id })\<close>.\<close>

definition Comment_deleteMany :: "db \<Rightarrow> oid \<Rightarrow> db" where
  "Comment_deleteMany s i =
     s\<lparr>comments := filter (\<lambda>c. parentComment c \<noteq> Some i) (comments s)\<rparr>"

text \<open>\<^verbatim>\<open>Comment.findByIdAndDelete(id)\<close> removes the first document with that id.\<close>

fun deleteFirst :: "oid \<Rightarrow> comment list \<Rightarrow> comment list" where
  "deleteFirst i [] = []"
| "deleteFirst i (c # cs) = (if cid c = i then cs else c # deleteFirst i cs)"

definition Comment_findByIdAndDelete :: "db \<Rightarrow> oid \<Rightarrow> db" where
  "Comment_findByIdAndDelete s i = s\<lparr>comments := deleteFirst i (comments s)\<rparr>"

text \<open>
  The schema's string options on \<^verbatim>\<open>content\<close>: \<^verbatim>\<open>trim: true\<close> is a setter, applied when
  the field is assigned, that calls \<^verbatim>\<open>String.prototype.trim\<close>; \<^verbatim>\<open>required\<close>,
  \<^verbatim>\<open>minlength: 1\<close> and \<^verbatim>\<open>maxlength: 1000\<close> are validators, run by \<^verbatim>\<open>save()\<close>.

  \<^verbatim>\<open>trim()\<close> strips ECMAScript's white space and line terminators from both ends: tab,
  line feed, vertical tab, form feed, carriage return, space, no-break space U+00A0, the
  other space separators U+1680, U+2000 to U+200A, U+202F, U+205F and U+3000, the line
  and paragraph separators U+2028 and U+2029, and the byte order mark U+FEFF.
\<close>

definition isSpace :: "16 word \<Rightarrow> bool" where
  "isSpace u =
     (u \<in> set [0x0009, 0x000A, 0x000B, 0x000C, 0x000D, 0x0020, 0x00A0, 0x1680,
               0x2000, 0x2001, 0x2002, 0x2003, 0x2004, 0x2005, 0x2006, 0x2007, 0x2008,
               0x2009, 0x200A, 0x2028, 0x2029, 0x202F, 0x205F, 0x3000, 0xFEFF])"

definition trim :: "jsstring \<Rightarrow> jsstring" where
  "trim str = rev (dropWhile isSpace (rev (dropWhile isSpace str)))"

definition validate :: "comment \<Rightarrow> bool" where
  "validate c = (1 \<le> length (content c) \<and> length (content c) \<le> 1000)"

text \<open>
  \<^verbatim>\<open>new Comment({ content, author, blog, parentComment })\<close>: the other fields take the
  schema's defaults, the id is the fresh ObjectId the driver generates, and
  \<^verbatim>\<open>timestamps: true\<close> stamps both dates on the first save.
\<close>

definition new_Comment :: "oid \<Rightarrow> nat \<Rightarrow> jsstring \<Rightarrow> oid \<Rightarrow> oid \<Rightarrow> oid option \<Rightarrow> comment" where
  "new_Comment newId now txt userId blogId parent =
     \<lparr>cid = newId, content = trim txt, author = userId, blog = blogId,
      parentComment = parent, upvotes = [], downvotes = [], isEdited = False,
      createdAt = now, updatedAt = now\<rparr>"

text \<open>
  \<^verbatim>\<open>save()\<close> of a new document: validation, then an insert, which the database refuses
  when the id is already present (duplicate key). \<open>None\<close> is the thrown error.
\<close>

definition Comment_insert :: "db \<Rightarrow> comment \<Rightarrow> db option" where
  "Comment_insert s c =
     (if \<not> validate c then None
      else if Comment_findById s (cid c) \<noteq> None then None
      else Some (s\<lparr>comments := comments s @ [c]\<rparr>))"

text \<open>
  \<^verbatim>\<open>save()\<close> of a document that was found by id: validation, then the first document
  with that id is overwritten; \<^verbatim>\<open>timestamps: true\<close> sets \<^verbatim>\<open>updatedAt\<close>.
\<close>

fun replaceFirst :: "comment \<Rightarrow> comment list \<Rightarrow> comment list" where
  "replaceFirst c [] = []"
| "replaceFirst c (d # ds) = (if cid d = cid c then c # ds else d # replaceFirst c ds)"

definition Comment_save :: "db \<Rightarrow> nat \<Rightarrow> comment \<Rightarrow> (db \<times> comment) option" where
  "Comment_save s now c =
     (if \<not> validate c then None
      else let c' = c\<lparr>updatedAt := now\<rparr>
           in Some (s\<lparr>comments := replaceFirst c' (comments s)\<rparr>, c'))"

section \<open>What a handler produces\<close>

text \<open>
  A REST controller answers with a status, a message and a body; a socket handler emits
  events, to a blog's room (\<^verbatim>\<open>commentNamespace.to(`blog:${blogId}`).emit\<close>) or to the
  calling socket only (\<^verbatim>\<open>socket.emit\<close>).
\<close>

datatype body = NoBody | CommentBody comment | VoteBody int "string option"

datatype reply = Reply (status: nat) (message: string) (payload: body)

datatype event =
    CommentCreated comment "oid option"
  | CommentUpdated comment
  | CommentDeleted oid
  | CommentVoted oid int nat nat
  | CommentError string

datatype emission = ToRoom oid event | ToSocket event

record outcome =
  store :: db
  response :: "reply option"
  emitted :: "emission list"

definition respond :: "db \<Rightarrow> nat \<Rightarrow> string \<Rightarrow> body \<Rightarrow> outcome" where
  "respond s code msg b = \<lparr>store = s, response = Some (Reply code msg b), emitted = []\<rparr>"

definition emit :: "db \<Rightarrow> emission \<Rightarrow> outcome" where
  "emit s e = \<lparr>store = s, response = None, emitted = [e]\<rparr>"

text \<open>JavaScript truthiness of an optional id: \<^verbatim>\<open>null\<close>, \<^verbatim>\<open>undefined\<close> and \<^verbatim>\<open>""\<close> are falsy.\<close>

definition truthy :: "oid option \<Rightarrow> bool" where
  "truthy p = (case p of None \<Rightarrow> False | Some x \<Rightarrow> x \<noteq> [])"

text \<open>\<^verbatim>\<open>parentCommentId || null\<close>.\<close>

definition orNull :: "oid option \<Rightarrow> oid option" where
  "orNull p = (if truthy p then p else None)"

section \<open>The toggle on the two vote arrays\<close>

text \<open>
  The body shared, line for line, by \<^verbatim>\<open>voteComment\<close> and the \<^verbatim>\<open>vote-comment\<close>
  handler, after the vote type has been checked and the comment found.
\<close>

definition toggleVote :: "comment \<Rightarrow> oid \<Rightarrow> string \<Rightarrow> comment" where
  "toggleVote c userId voteType =
     (let hasUpvoted = userId \<in> set (upvotes c);
          hasDownvoted = userId \<in> set (downvotes c)
      in if voteType = ''upvote'' then
           (if hasUpvoted then c\<lparr>upvotes := filter (\<lambda>i. i \<noteq> userId) (upvotes c)\<rparr>
            else let c1 = c\<lparr>upvotes := upvotes c @ [userId]\<rparr>
                 in if hasDownvoted
                    then c1\<lparr>downvotes := filter (\<lambda>i. i \<noteq> userId) (downvotes c1)\<rparr>
                    else c1)
         else if voteType = ''downvote'' then
           (if hasDownvoted then c\<lparr>downvotes := filter (\<lambda>i. i \<noteq> userId) (downvotes c)\<rparr>
            else let c1 = c\<lparr>downvotes := downvotes c @ [userId]\<rparr>
                 in if hasUpvoted
                    then c1\<lparr>upvotes := filter (\<lambda>i. i \<noteq> userId) (upvotes c1)\<rparr>
                    else c1)
         else c)"

section \<open>The REST controllers\<close>

text \<open>
  Each controller is one \<^verbatim>\<open>try\<close> block whose \<^verbatim>\<open>catch\<close> answers 500. The fresh id
  and the clock are inputs. No controller holds the socket server, so none emits.
\<close>

definition createComment ::
  "db \<Rightarrow> user \<Rightarrow> jsstring \<Rightarrow> oid \<Rightarrow> oid option \<Rightarrow> oid \<Rightarrow> nat \<Rightarrow> outcome" where
  "createComment s usr txt blogId parentCommentId newId now =
     (let userId = user_id usr
      in if \<not> Blog_findById s blogId then respond s 404 ''Blog post not found'' NoBody
         else if truthy parentCommentId \<and> Comment_findById s (the parentCommentId) = None
           then respond s 404 ''Parent comment not found'' NoBody
         else let newComment = new_Comment newId now txt userId blogId (orNull parentCommentId)
              in case Comment_insert s newComment of
                   None \<Rightarrow> respond s 500 ''Failed to create comment'' NoBody
                 | Some s' \<Rightarrow>
                     respond s' 201 ''Comment created successfully'' (CommentBody newComment))"

definition updateComment :: "db \<Rightarrow> user \<Rightarrow> oid \<Rightarrow> jsstring \<Rightarrow> nat \<Rightarrow> outcome" where
  "updateComment s usr i txt now =
     (let userId = user_id usr
      in case Comment_findById s i of
           None \<Rightarrow> respond s 404 ''Comment not found'' NoBody
         | Some c \<Rightarrow>
             if author c \<noteq> userId \<and> role usr \<noteq> ''admin''
             then respond s 403 ''You are not authorized to update this comment'' NoBody
             else (case Comment_save s now
                          (c\<lparr>content := trim txt, isEdited := True, updatedAt := now\<rparr>) of
                     None \<Rightarrow> respond s 500 ''Failed to update comment'' NoBody
                   | Some (s', c') \<Rightarrow>
                       respond s' 200 ''Comment updated successfully'' (CommentBody c')))"

definition deleteComment :: "db \<Rightarrow> user \<Rightarrow> oid \<Rightarrow> outcome" where
  "deleteComment s usr i =
     (let userId = user_id usr
      in case Comment_findById s i of
           None \<Rightarrow> respond s 404 ''Comment not found'' NoBody
         | Some c \<Rightarrow>
             if author c \<noteq> userId \<and> role usr \<noteq> ''admin''
             then respond s 403 ''You are not authorized to delete this comment'' NoBody
             else respond (Comment_findByIdAndDelete (Comment_deleteMany s i) i)
                    200 ''Comment deleted successfully'' NoBody)"

text \<open>The \<^verbatim>\<open>userVote\<close> of the answer, computed from the flags read before the toggle.\<close>

definition userVote :: "bool \<Rightarrow> bool \<Rightarrow> string \<Rightarrow> string option" where
  "userVote hasUpvoted hasDownvoted voteType =
     (if hasUpvoted then (if voteType = ''upvote'' then None else Some ''downvote'')
      else if hasDownvoted then (if voteType = ''downvote'' then None else Some ''upvote'')
      else Some voteType)"

definition voteComment :: "db \<Rightarrow> user \<Rightarrow> oid \<Rightarrow> string \<Rightarrow> nat \<Rightarrow> outcome" where
  "voteComment s usr i voteType now =
     (let userId = user_id usr
      in if voteType \<notin> set [''upvote'', ''downvote'']
         then respond s 400 ''Invalid vote type'' NoBody
         else case Comment_findById s i of
           None \<Rightarrow> respond s 404 ''Comment not found'' NoBody
         | Some c \<Rightarrow>
             (case Comment_save s now (toggleVote c userId voteType) of
                None \<Rightarrow> respond s 500 ''Failed to vote on comment'' NoBody
              | Some (s', c') \<Rightarrow>
                  respond s' 200
                    (if voteType = ''upvote'' then ''Comment upvoted successfully''
                     else ''Comment downvoted successfully'')
                    (VoteBody (int (length (upvotes c')) - int (length (downvotes c')))
                       (userVote (userId \<in> set (upvotes c)) (userId \<in> set (downvotes c))
                          voteType))))"

section \<open>The socket handlers\<close>

text \<open>
  The handlers of the \<^verbatim>\<open>/comments\<close> namespace. A thrown error is caught and answered
  with \<^verbatim>\<open>comment-error\<close> on the calling socket.
\<close>

definition new_comment ::
  "db \<Rightarrow> user \<Rightarrow> jsstring \<Rightarrow> oid \<Rightarrow> oid option \<Rightarrow> oid \<Rightarrow> nat \<Rightarrow> outcome" where
  "new_comment s usr txt blogId parentCommentId newId now =
     (let userId = user_id usr;
          newComment = new_Comment newId now txt userId blogId (orNull parentCommentId)
      in case Comment_insert s newComment of
           None \<Rightarrow> emit s (ToSocket (CommentError ''Failed to create comment''))
         | Some s' \<Rightarrow> emit s' (ToRoom blogId (CommentCreated newComment parentCommentId)))"

definition update_comment :: "db \<Rightarrow> user \<Rightarrow> oid \<Rightarrow> jsstring \<Rightarrow> nat \<Rightarrow> outcome" where
  "update_comment s usr commentId txt now =
     (let userId = user_id usr
      in case Comment_findById s commentId of
           None \<Rightarrow> emit s (ToSocket (CommentError ''Comment not found''))
         | Some c \<Rightarrow>
             if author c \<noteq> userId \<and> role usr \<noteq> ''admin''
             then emit s (ToSocket (CommentError ''Not authorized to update this comment''))
             else (case Comment_save s now
                          (c\<lparr>content := trim txt, isEdited := True, updatedAt := now\<rparr>) of
                     None \<Rightarrow> emit s (ToSocket (CommentError ''Failed to update comment''))
                   | Some (s', c') \<Rightarrow> emit s' (ToRoom (blog c') (CommentUpdated c'))))"

definition delete_comment :: "db \<Rightarrow> user \<Rightarrow> oid \<Rightarrow> outcome" where
  "delete_comment s usr commentId =
     (let userId = user_id usr
      in case Comment_findById s commentId of
           None \<Rightarrow> emit s (ToSocket (CommentError ''Comment not found''))
         | Some c \<Rightarrow>
             if author c \<noteq> userId \<and> role usr \<noteq> ''admin''
             then emit s (ToSocket (CommentError ''Not authorized to delete this comment''))
             else let blogId = blog c
                  in emit (Comment_findByIdAndDelete (Comment_deleteMany s commentId) commentId)
                       (ToRoom blogId (CommentDeleted commentId)))"

definition vote_comment :: "db \<Rightarrow> user \<Rightarrow> oid \<Rightarrow> string \<Rightarrow> nat \<Rightarrow> outcome" where
  "vote_comment s usr commentId voteType now =
     (let userId = user_id usr
      in if voteType \<notin> set [''upvote'', ''downvote'']
         then emit s (ToSocket (CommentError ''Invalid vote type''))
         else case Comment_findById s commentId of
           None \<Rightarrow> emit s (ToSocket (CommentError ''Comment not found''))
         | Some c \<Rightarrow>
             (case Comment_save s now (toggleVote c userId voteType) of
                None \<Rightarrow> emit s (ToSocket (CommentError ''Failed to vote on comment''))
              | Some (s', c') \<Rightarrow>
                  emit s' (ToRoom (blog c')
                    (CommentVoted (cid c')
                       (int (length (upvotes c')) - int (length (downvotes c')))
                       (length (upvotes c')) (length (downvotes c'))))))"

section \<open>Sequences of requests\<close>

datatype request =
    RestCreate user jsstring oid "oid option" oid nat
  | RestUpdate user oid jsstring nat
  | RestDelete user oid
  | RestVote user oid string nat
  | SockCreate user jsstring oid "oid option" oid nat
  | SockUpdate user oid jsstring nat
  | SockDelete user oid
  | SockVote user oid string nat

fun handle :: "db \<Rightarrow> request \<Rightarrow> outcome" where
  "handle s (RestCreate u txt b p n t) = createComment s u txt b p n t"
| "handle s (RestUpdate u i txt t) = updateComment s u i txt t"
| "handle s (RestDelete u i) = deleteComment s u i"
| "handle s (RestVote u i v t) = voteComment s u i v t"
| "handle s (SockCreate u txt b p n t) = new_comment s u txt b p n t"
| "handle s (SockUpdate u i txt t) = update_comment s u i txt t"
| "handle s (SockDelete u i) = delete_comment s u i"
| "handle s (SockVote u i v t) = vote_comment s u i v t"

fun run :: "db \<Rightarrow> request list \<Rightarrow> db" where
  "run s [] = s"
| "run s (r # rs) = run (store (handle s r)) rs"

text \<open>The database before any comment exists, over any Blog collection.\<close>

definition initial :: "oid list \<Rightarrow> db" where
  "initial bs = \<lparr>blogs = bs, comments = []\<rparr>"

section \<open>The vote state machine of the specification\<close>

text \<open>
  The states of a (comment, user) pair and the transition table, as the specification
  writes them; \<open>voteState\<close> reads the state off a stored comment with the two tests the
  code makes (\<^verbatim>\<open>hasUpvoted\<close>, \<^verbatim>\<open>hasDownvoted\<close>).
\<close>

datatype vote_state = NoVote | Upvoted | Downvoted

datatype vote_type = Upvote | Downvote

fun spec_transition :: "vote_type \<Rightarrow> vote_state \<Rightarrow> vote_state" where
  "spec_transition Upvote NoVote = Upvoted"
| "spec_transition Upvote Upvoted = NoVote"
| "spec_transition Downvote Upvoted = Downvoted"
| "spec_transition Downvote Downvoted = NoVote"
| "spec_transition Upvote Downvoted = Upvoted"
| "spec_transition Downvote NoVote = Downvoted"

fun voteTypeName :: "vote_type \<Rightarrow> string" where
  "voteTypeName Upvote = ''upvote''"
| "voteTypeName Downvote = ''downvote''"

definition voteState :: "comment \<Rightarrow> oid \<Rightarrow> vote_state" where
  "voteState c userId =
     (if userId \<in> set (upvotes c) then Upvoted
      else if userId \<in> set (downvotes c) then Downvoted
      else NoVote)"

section \<open>Well-formed comments\<close>

text \<open>What every stored comment satisfies: a vote ledger without repetition, and valid content.\<close>

definition comment_ok :: "comment \<Rightarrow> bool" where
  "comment_ok c =
     (distinct (upvotes c) \<and> distinct (downvotes c) \<and>
      set (upvotes c) \<inter> set (downvotes c) = {} \<and> validate c)"

definition store_ok :: "db \<Rightarrow> bool" where
  "store_ok s = list_all comment_ok (comments s)"

text \<open>No two documents of the collection share an id.\<close>

definition ids_ok :: "db \<Rightarrow> bool" where
  "ids_ok s = distinct (map cid (comments s))"

text \<open>The direct replies of a comment: the documents \<^verbatim>\<open>deleteMany\<close> selects.\<close>

definition directReplies :: "db \<Rightarrow> oid \<Rightarrow> comment list" where
  "directReplies s i = filter (\<lambda>c. parentComment c = Some i) (comments s)"

definition authorized :: "user \<Rightarrow> comment \<Rightarrow> bool" where
  "authorized usr c = (author c = user_id usr \<or> role usr = ''admin'')"

section \<open>The client's listener for created comments\<close>

text \<open>
  \<^verbatim>\<open>CommentType\<close> as the component holds it: the id, the other fields, and the
  optional \<^verbatim>\<open>replies\<close> array.
\<close>

datatype 'a ccomment = CComment (c_id: oid) (c_fields: 'a) (replies: "'a ccomment list option")

text \<open>\<^verbatim>\<open>c.replies || []\<close>.\<close>

definition orEmpty :: "'a list option \<Rightarrow> 'a list" where
  "orEmpty r = (case r of None \<Rightarrow> [] | Some xs \<Rightarrow> xs)"

text \<open>The state update of the \<^verbatim>\<open>comment-created\<close> listener, from \<open>prev\<close> to the new list.\<close>

definition comment_created ::
  "'a ccomment list \<Rightarrow> 'a ccomment \<Rightarrow> oid option \<Rightarrow> 'a ccomment list" where
  "comment_created prev cm parentId =
     (if \<not> truthy parentId then cm # prev
      else map (\<lambda>c. if c_id c = the parentId
                     then CComment (c_id c) (c_fields c) (Some (orEmpty (replies c) @ [cm]))
                     else c) prev)"

section \<open>A small thread\<close>

text \<open>
  Two users and one blog. Alice posts, Bob replies to her over the socket, and Alice
  replies to Bob's reply over REST.
\<close>

definition alice :: user where
  "alice = \<lparr>user_id = ''a1'', role = ''user''\<rparr>"

definition bob :: user where
  "bob = \<lparr>user_id = ''b2'', role = ''user''\<rparr>"

definition prelude :: "request list" where
  "prelude =
     [RestCreate alice (js ''Hello'') ''blog1'' None ''c1'' 1,
      SockCreate bob (js ''Hi'') ''blog1'' (Some ''c1'') ''c2'' 2]"

definition thread :: "request list" where
  "thread = prelude @ [RestCreate alice (js ''Again'') ''blog1'' (Some ''c2'') ''c3'' 3]"

text \<open>A comment that names the id it is about to get as its parent.\<close>

definition selfParent :: "request list" where
  "selfParent = [SockCreate alice (js ''Hello'') ''blog1'' (Some ''c1'') ''c1'' 1]"

definition hello :: comment where
  "hello = \<lparr>cid = ''c1'', content = js ''Hello'', author = ''a1'', blog = ''blog1'',
            parentComment = None, upvotes = [], downvotes = [], isEdited = False,
            createdAt = 1, updatedAt = 1\<rparr>"

definition hi :: comment where
  "hi = \<lparr>cid = ''c2'', content = js ''Hi'', author = ''b2'', blog = ''blog1'',
         parentComment = Some ''c1'', upvotes = [], downvotes = [], isEdited = False,
         createdAt = 2, updatedAt = 2\<rparr>"

definition again :: comment where
  "again = \<lparr>cid = ''c3'', content = js ''Again'', author = ''a1'', blog = ''blog1'',
            parentComment = Some ''c2'', upvotes = [], downvotes = [], isEdited = False,
            createdAt = 3, updatedAt = 3\<rparr>"

section \<open>Evaluating the small thread\<close>

lemmas handler_defs =
  createComment_def updateComment_def deleteComment_def voteComment_def
  new_comment_def update_comment_def delete_comment_def vote_comment_def

lemmas store_defs =
  Blog_findById_def Comment_findById_def Comment_deleteMany_def Comment_findByIdAndDelete_def
  Comment_insert_def Comment_save_def new_Comment_def validate_def trim_def isSpace_def
  js_def
  truthy_def orNull_def respond_def emit_def toggleVote_def userVote_def Let_def

lemmas thread_defs =
  prelude_def thread_def initial_def alice_def bob_def hello_def hi_def again_def

lemma prelude_store:
  "run (initial [''blog1'']) prelude = \<lparr>blogs = [''blog1''], comments = [hello, hi]\<rparr>"
  by (simp add: thread_defs handler_defs store_defs)

lemma thread_store:
  "run (initial [''blog1'']) thread = \<lparr>blogs = [''blog1''], comments = [hello, hi, again]\<rparr>"
  by (simp add: thread_defs handler_defs store_defs)

section \<open>Every stored comment is well formed\<close>

lemma toggleVote_ok: "comment_ok c \<Longrightarrow> comment_ok (toggleVote c u v)"
  by (auto simp: comment_ok_def toggleVote_def validate_def Let_def)

lemma set_replaceFirst: "set (replaceFirst c cs) \<subseteq> insert c (set cs)"
  by (induction cs) auto

lemma set_deleteFirst: "set (deleteFirst i cs) \<subseteq> set cs"
  by (induction cs) auto

lemma findById_mem: "Comment_findById s i = Some c \<Longrightarrow> c \<in> set (comments s)"
  by (auto simp: Comment_findById_def find_Some_iff)

lemma findById_cid: "Comment_findById s i = Some c \<Longrightarrow> cid c = i"
  by (auto simp: Comment_findById_def find_Some_iff)

lemma insert_ok:
  "store_ok s \<Longrightarrow> comment_ok c \<Longrightarrow> Comment_insert s c = Some s' \<Longrightarrow> store_ok s'"
  by (auto simp: Comment_insert_def store_ok_def split: if_splits)

lemma save_ok:
  "store_ok s \<Longrightarrow> comment_ok c \<Longrightarrow> Comment_save s now c = Some (s', c') \<Longrightarrow> store_ok s'"
  using set_replaceFirst
  by (fastforce simp: Comment_save_def store_ok_def list_all_iff comment_ok_def validate_def
      Let_def split: if_splits)

lemma new_Comment_ok:
  "validate (new_Comment n t x u b p) \<Longrightarrow> comment_ok (new_Comment n t x u b p)"
  by (simp add: comment_ok_def new_Comment_def)

lemma insert_validates: "Comment_insert s c = Some s' \<Longrightarrow> validate c"
  by (auto simp: Comment_insert_def split: if_splits)

lemma save_validates: "Comment_save s now c = Some r \<Longrightarrow> validate c"
  by (auto simp: Comment_save_def split: if_splits)

lemma delete_ok: "store_ok s \<Longrightarrow> store_ok (Comment_findByIdAndDelete (Comment_deleteMany s i) i)"
  using set_deleteFirst
  by (fastforce simp: store_ok_def list_all_iff Comment_findByIdAndDelete_def
      Comment_deleteMany_def)

lemma edit_ok:
  "comment_ok c \<Longrightarrow> validate (c\<lparr>content := x, isEdited := True, updatedAt := t\<rparr>)
   \<Longrightarrow> comment_ok (c\<lparr>content := x, isEdited := True, updatedAt := t\<rparr>)"
  by (simp add: comment_ok_def)

lemma found_ok: "store_ok s \<Longrightarrow> Comment_findById s i = Some c \<Longrightarrow> comment_ok c"
  using findById_mem by (fastforce simp: store_ok_def list_all_iff)

lemma edit_save_ok:
  assumes "store_ok s" and "Comment_findById s i = Some c"
    and "Comment_save s t (c\<lparr>content := x, isEdited := True, updatedAt := t\<rparr>) = Some (s', c')"
  shows "store_ok s'"
proof -
  have "comment_ok c"
    using assms(1,2) by (rule found_ok)
  moreover have "validate (c\<lparr>content := x, isEdited := True, updatedAt := t\<rparr>)"
    using assms(3) save_validates by blast
  ultimately have "comment_ok (c\<lparr>content := x, isEdited := True, updatedAt := t\<rparr>)"
    by (rule edit_ok)
  then show ?thesis
    using assms(1,3) save_ok by blast
qed

lemma vote_save_ok:
  assumes "store_ok s" and "Comment_findById s i = Some c"
    and "Comment_save s t (toggleVote c u v) = Some (s', c')"
  shows "store_ok s'"
proof -
  have "comment_ok c"
    using assms(1,2) by (rule found_ok)
  then have "comment_ok (toggleVote c u v)"
    by (rule toggleVote_ok)
  then show ?thesis
    using assms(1,3) save_ok by blast
qed

lemma createComment_ok: "store_ok s \<Longrightarrow> store_ok (store (createComment s u x b p n t))"
  by (auto simp: createComment_def respond_def Let_def split: option.splits
      dest: insert_validates intro: insert_ok new_Comment_ok)

lemma new_comment_ok: "store_ok s \<Longrightarrow> store_ok (store (new_comment s u x b p n t))"
  by (auto simp: new_comment_def emit_def Let_def split: option.splits
      dest: insert_validates intro: insert_ok new_Comment_ok)

lemma updateComment_ok: "store_ok s \<Longrightarrow> store_ok (store (updateComment s u i x t))"
  by (auto simp: updateComment_def respond_def Let_def split: option.splits
      intro: edit_save_ok)

lemma update_comment_ok: "store_ok s \<Longrightarrow> store_ok (store (update_comment s u i x t))"
  by (auto simp: update_comment_def emit_def Let_def split: option.splits
      intro: edit_save_ok)

lemma deleteComment_ok: "store_ok s \<Longrightarrow> store_ok (store (deleteComment s u i))"
  by (auto simp: deleteComment_def respond_def Let_def split: option.splits
      intro: delete_ok)

lemma delete_comment_ok: "store_ok s \<Longrightarrow> store_ok (store (delete_comment s u i))"
  by (auto simp: delete_comment_def emit_def Let_def split: option.splits
      intro: delete_ok)

lemma voteComment_ok: "store_ok s \<Longrightarrow> store_ok (store (voteComment s u i v t))"
  by (auto simp: voteComment_def respond_def Let_def split: option.splits
      intro: vote_save_ok)

lemma vote_comment_ok: "store_ok s \<Longrightarrow> store_ok (store (vote_comment s u i v t))"
  by (auto simp: vote_comment_def emit_def Let_def split: option.splits
      intro: vote_save_ok)

lemma handle_ok: "store_ok s \<Longrightarrow> store_ok (store (handle s r))"
  by (cases r)
    (simp_all add: createComment_ok updateComment_ok deleteComment_ok voteComment_ok
      new_comment_ok update_comment_ok delete_comment_ok vote_comment_ok)

lemma run_ok: "store_ok s \<Longrightarrow> store_ok (run s rs)"
  by (induction rs arbitrary: s) (simp_all add: handle_ok)

lemma initial_ok: "store_ok (initial bs)"
  by (simp add: store_ok_def initial_def)

lemma reachable_ok: "c \<in> set (comments (run (initial bs) rs)) \<Longrightarrow> comment_ok c"
  using run_ok [OF initial_ok] by (auto simp: store_ok_def list_all_iff)

section \<open>The vote ledger invariant\<close>

text \<open>
  Claim C2. In every store reached from the empty collection by any sequence of create,
  update, delete and vote requests, on either transport, each comment's \<open>voteScore\<close> is
  the number of users who upvoted it minus the number who downvoted it, and no user is in
  both arrays.
\<close>

theorem vote_ledger_invariant:
  assumes "c \<in> set (comments (run (initial bs) rs))"
  shows "voteScore c = int (card (set (upvotes c))) - int (card (set (downvotes c)))
         \<and> set (upvotes c) \<inter> set (downvotes c) = {}"
proof -
  have "comment_ok c"
    using assms by (rule reachable_ok)
  then show ?thesis
    by (simp add: comment_ok_def voteScore_def distinct_card)
qed

theorem vote_ledger_invariant_witness:
  "hi \<in> set (comments (run (initial [''blog1'']) thread))
   \<and> voteScore hi = int (card (set (upvotes hi))) - int (card (set (downvotes hi)))
   \<and> set (upvotes hi) \<inter> set (downvotes hi) = {}"
proof -
  have h: "hi \<in> set (comments (run (initial [''blog1'']) thread))"
    by (simp add: thread_store)
  show ?thesis
    using h vote_ledger_invariant [OF h] by simp
qed

section \<open>Ids are unique in a reachable collection\<close>

lemma map_cid_replaceFirst: "map cid (replaceFirst c cs) = map cid cs"
  by (induction cs) auto

lemma deleteFirst_absent: "i \<notin> cid ` set cs \<Longrightarrow> deleteFirst i cs = cs"
  by (induction cs) auto

lemma filter_cid_absent: "i \<notin> cid ` set cs \<Longrightarrow> filter (\<lambda>d. cid d \<noteq> i) cs = cs"
  by (induction cs) auto

lemma deleteFirst_filter:
  "distinct (map cid cs) \<Longrightarrow> deleteFirst i cs = filter (\<lambda>d. cid d \<noteq> i) cs"
  by (induction cs) (auto simp: filter_cid_absent)

lemma findById_None: "Comment_findById s i = None \<Longrightarrow> i \<notin> cid ` set (comments s)"
  by (auto simp: Comment_findById_def find_None_iff)

lemma insert_ids:
  "ids_ok s \<Longrightarrow> Comment_insert s c = Some s' \<Longrightarrow> ids_ok s'"
  by (auto simp: Comment_insert_def ids_ok_def split: if_splits dest: findById_None)

lemma save_ids: "ids_ok s \<Longrightarrow> Comment_save s now c = Some (s', c') \<Longrightarrow> ids_ok s'"
  by (auto simp: Comment_save_def ids_ok_def Let_def map_cid_replaceFirst split: if_splits)

lemma delete_ids: "ids_ok s \<Longrightarrow> ids_ok (Comment_findByIdAndDelete (Comment_deleteMany s i) i)"
  by (simp add: ids_ok_def Comment_findByIdAndDelete_def Comment_deleteMany_def
      deleteFirst_filter distinct_map_filter)

lemma handle_ids: "ids_ok s \<Longrightarrow> ids_ok (store (handle s r))"
  by (cases r)
    (auto simp: handler_defs respond_def emit_def Let_def split: option.splits
      intro: insert_ids save_ids delete_ids)

lemma run_ids: "ids_ok s \<Longrightarrow> ids_ok (run s rs)"
  by (induction rs arbitrary: s) (simp_all add: handle_ids)

lemma reachable_ids: "distinct (map cid (comments (run (initial bs) rs)))"
  using run_ids [of "initial bs" rs] by (simp add: ids_ok_def initial_def)

section \<open>One vote is one transition\<close>

lemma find_replaceFirst:
  "find (\<lambda>d. cid d = i) cs = Some c \<Longrightarrow> cid c' = i
   \<Longrightarrow> find (\<lambda>d. cid d = i) (replaceFirst c' cs) = Some c'"
  by (induction cs) (auto split: if_splits)

lemma toggleVote_cid: "cid (toggleVote c u v) = cid c"
  by (simp add: toggleVote_def Let_def)

lemma toggleVote_validate: "validate (toggleVote c u v) = validate c"
  by (simp add: toggleVote_def validate_def Let_def)

lemma toggleVote_transition:
  assumes "set (upvotes c) \<inter> set (downvotes c) = {}"
  shows "voteState (toggleVote c u (voteTypeName v)) u = spec_transition v (voteState c u)"
  using assms by (cases v) (auto simp: toggleVote_def voteState_def Let_def)

lemma voteState_updatedAt: "voteState (c\<lparr>updatedAt := t\<rparr>) u = voteState c u"
  by (simp add: voteState_def)

lemma voteTypeName_valid: "voteTypeName v \<in> set [''upvote'', ''downvote'']"
  by (cases v) simp_all

text \<open>What a vote by a valid type on a found, well-formed comment stores.\<close>

lemma save_found:
  assumes "Comment_findById s i = Some c" and "cid d = i" and "validate d"
  shows "Comment_save s now d
         = Some (s\<lparr>comments := replaceFirst (d\<lparr>updatedAt := now\<rparr>) (comments s)\<rparr>,
                 d\<lparr>updatedAt := now\<rparr>)"
    and "Comment_findById (s\<lparr>comments := replaceFirst (d\<lparr>updatedAt := now\<rparr>) (comments s)\<rparr>) i
         = Some (d\<lparr>updatedAt := now\<rparr>)"
  using assms by (simp_all add: Comment_save_def Comment_findById_def find_replaceFirst Let_def)

lemma voteComment_found:
  assumes "Comment_findById s i = Some c" and "comment_ok c"
  shows "Comment_findById (store (voteComment s usr i (voteTypeName v) now)) i
         = Some ((toggleVote c (user_id usr) (voteTypeName v))\<lparr>updatedAt := now\<rparr>)"
proof -
  let ?d = "toggleVote c (user_id usr) (voteTypeName v)"
  have "cid ?d = i"
    using assms(1) by (simp add: toggleVote_cid findById_cid)
  moreover have "validate ?d"
    using assms(2) by (simp add: toggleVote_validate comment_ok_def)
  ultimately show ?thesis
    using save_found [OF assms(1), of ?d now] assms(1) voteTypeName_valid [of v]
    by (simp add: voteComment_def respond_def Let_def)
qed

lemma vote_comment_found:
  assumes "Comment_findById s i = Some c" and "comment_ok c"
  shows "Comment_findById (store (vote_comment s usr i (voteTypeName v) now)) i
         = Some ((toggleVote c (user_id usr) (voteTypeName v))\<lparr>updatedAt := now\<rparr>)"
proof -
  let ?d = "toggleVote c (user_id usr) (voteTypeName v)"
  have "cid ?d = i"
    using assms(1) by (simp add: toggleVote_cid findById_cid)
  moreover have "validate ?d"
    using assms(2) by (simp add: toggleVote_validate comment_ok_def)
  ultimately show ?thesis
    using save_found [OF assms(1), of ?d now] assms(1) voteTypeName_valid [of v]
    by (simp add: vote_comment_def emit_def Let_def)
qed

lemma reachable_found_ok:
  "Comment_findById (run (initial bs) rs) i = Some c \<Longrightarrow> comment_ok c"
  using findById_mem reachable_ok by blast

text \<open>
  Claim C1. On a comment of a reachable store, one call of the vote operation, by REST
  or by socket, moves the state of the (comment, user) pair by exactly the transition
  the table gives for the vote type: upvote takes none to upvoted, upvoted to none and
  downvoted to upvoted; downvote takes none to downvoted, downvoted to none and upvoted
  to downvoted.
\<close>

theorem vote_single_transition:
  assumes "Comment_findById (run (initial bs) rs) i = Some c"
  shows "map_option (\<lambda>c'. voteState c' (user_id usr))
           (Comment_findById
              (store (voteComment (run (initial bs) rs) usr i (voteTypeName v) now)) i)
         = Some (spec_transition v (voteState c (user_id usr)))
       \<and> map_option (\<lambda>c'. voteState c' (user_id usr))
           (Comment_findById
              (store (vote_comment (run (initial bs) rs) usr i (voteTypeName v) now)) i)
         = Some (spec_transition v (voteState c (user_id usr)))"
proof -
  have ok: "comment_ok c"
    using assms by (rule reachable_found_ok)
  then have "set (upvotes c) \<inter> set (downvotes c) = {}"
    by (simp add: comment_ok_def)
  then have "voteState (toggleVote c (user_id usr) (voteTypeName v)) (user_id usr)
             = spec_transition v (voteState c (user_id usr))"
    by (rule toggleVote_transition)
  then show ?thesis
    by (simp add: voteComment_found [OF assms ok] vote_comment_found [OF assms ok]
        voteState_updatedAt)
qed

lemma thread_find_hello: "Comment_findById (run (initial [''blog1'']) thread) ''c1'' = Some hello"
  by (simp add: thread_store Comment_findById_def hello_def)

theorem vote_single_transition_witness:
  "Comment_findById (run (initial [''blog1'']) thread) ''c1'' = Some hello
   \<and> map_option (\<lambda>c'. voteState c' (user_id bob))
       (Comment_findById
          (store (voteComment (run (initial [''blog1'']) thread) bob ''c1''
             (voteTypeName Downvote) 4)) ''c1'')
     = Some Downvoted
   \<and> map_option (\<lambda>c'. voteState c' (user_id bob))
       (Comment_findById
          (store (vote_comment (run (initial [''blog1'']) thread) bob ''c1''
             (voteTypeName Downvote) 4)) ''c1'')
     = Some Downvoted"
proof -
  have h: "Comment_findById (run (initial [''blog1'']) thread) ''c1'' = Some hello"
    by (rule thread_find_hello)
  have "voteState hello (user_id bob) = NoVote"
    by (simp add: voteState_def hello_def)
  then show ?thesis
    using h vote_single_transition [OF h, of bob Downvote 4] by simp
qed

section \<open>Voting twice with the same type\<close>

lemma run_append: "run s (xs @ ys) = run (run s xs) ys"
  by (induction xs arbitrary: s) simp_all

lemma comment_ok_updatedAt: "comment_ok (c\<lparr>updatedAt := t\<rparr>) = comment_ok c"
  by (simp add: comment_ok_def validate_def)

lemma filter_absent: "u \<notin> set xs \<Longrightarrow> filter (\<lambda>i. i \<noteq> u) xs = xs"
  by (induction xs) auto

lemma toggleVote_twice:
  assumes "u \<notin> set (upvotes c)" and "u \<notin> set (downvotes c)"
  shows "toggleVote ((toggleVote c u (voteTypeName v))\<lparr>updatedAt := t\<rparr>) u (voteTypeName v)
         = c\<lparr>updatedAt := t\<rparr>"
  using assms by (cases v) (simp_all add: toggleVote_def Let_def filter_absent)

lemma NoVote_absent:
  "voteState c u = NoVote \<longleftrightarrow> u \<notin> set (upvotes c) \<and> u \<notin> set (downvotes c)"
  by (simp add: voteState_def)

lemma voteComment_twice:
  assumes "Comment_findById s i = Some c" and "comment_ok c"
    and "voteState c (user_id usr) = NoVote"
  shows "Comment_findById
           (store (voteComment (store (voteComment s usr i (voteTypeName v) t1))
              usr i (voteTypeName v) t2)) i
         = Some (c\<lparr>updatedAt := t2\<rparr>)"
proof -
  let ?d = "(toggleVote c (user_id usr) (voteTypeName v))\<lparr>updatedAt := t1\<rparr>"
  have first: "Comment_findById (store (voteComment s usr i (voteTypeName v) t1)) i = Some ?d"
    using assms(1,2) by (rule voteComment_found)
  have "comment_ok ?d"
    using assms(2) by (simp add: comment_ok_updatedAt toggleVote_ok)
  from voteComment_found [OF first this, of usr v t2] show ?thesis
    using assms(3) by (simp add: toggleVote_twice NoVote_absent)
qed

lemma vote_comment_twice:
  assumes "Comment_findById s i = Some c" and "comment_ok c"
    and "voteState c (user_id usr) = NoVote"
  shows "Comment_findById
           (store (vote_comment (store (vote_comment s usr i (voteTypeName v) t1))
              usr i (voteTypeName v) t2)) i
         = Some (c\<lparr>updatedAt := t2\<rparr>)"
proof -
  let ?d = "(toggleVote c (user_id usr) (voteTypeName v))\<lparr>updatedAt := t1\<rparr>"
  have first: "Comment_findById (store (vote_comment s usr i (voteTypeName v) t1)) i = Some ?d"
    using assms(1,2) by (rule vote_comment_found)
  have "comment_ok ?d"
    using assms(2) by (simp add: comment_ok_updatedAt toggleVote_ok)
  from vote_comment_found [OF first this, of usr v t2] show ?thesis
    using assms(3) by (simp add: toggleVote_twice NoVote_absent)
qed

text \<open>
  Claim C8, as stated, at a user who has already upvoted: Bob upvotes Alice's comment
  and then upvotes it twice more. The two further upvotes leave him in \<open>upvotes\<close>, in
  state upvoted, not in state none.
\<close>

theorem vote_twice_counterexample:
  "map_option (\<lambda>c. (voteState c ''b2'', upvotes c))
     (Comment_findById
        (run (initial [''blog1''])
           (thread @ [RestVote bob ''c1'' ''upvote'' 4])) ''c1'')
   = Some (Upvoted, [''b2''])
   \<and> map_option (\<lambda>c. (voteState c ''b2'', upvotes c))
       (Comment_findById
          (run (initial [''blog1''])
             (thread @ [RestVote bob ''c1'' ''upvote'' 4,
                        RestVote bob ''c1'' ''upvote'' 5,
                        RestVote bob ''c1'' ''upvote'' 6])) ''c1'')
     = Some (Upvoted, [''b2''])"
  by (simp add: run_append thread_store voteComment_def store_defs voteState_def
      bob_def hello_def hi_def again_def)

text \<open>
  Claim C8, amended. When the user has no vote on a comment of a reachable store, two
  votes of the same type by that user, by REST or by socket, bring the pair back to
  none: the two arrays are what they were, so the user is in neither and \<open>voteScore\<close>
  is the original one.
\<close>

theorem vote_twice_from_none:
  assumes "Comment_findById (run (initial bs) rs) i = Some c"
    and "voteState c (user_id usr) = NoVote"
  shows "map_option (\<lambda>c'. (voteState c' (user_id usr), upvotes c', downvotes c', voteScore c'))
           (Comment_findById
              (store (voteComment
                 (store (voteComment (run (initial bs) rs) usr i (voteTypeName v) t1))
                 usr i (voteTypeName v) t2)) i)
         = Some (NoVote, upvotes c, downvotes c, voteScore c)
       \<and> map_option (\<lambda>c'. (voteState c' (user_id usr), upvotes c', downvotes c', voteScore c'))
           (Comment_findById
              (store (vote_comment
                 (store (vote_comment (run (initial bs) rs) usr i (voteTypeName v) t1))
                 usr i (voteTypeName v) t2)) i)
         = Some (NoVote, upvotes c, downvotes c, voteScore c)"
proof -
  have ok: "comment_ok c"
    using assms(1) by (rule reachable_found_ok)
  show ?thesis
    using assms(2)
    by (simp add: voteComment_twice [OF assms(1) ok assms(2)]
        vote_comment_twice [OF assms(1) ok assms(2)] voteState_updatedAt voteScore_def)
qed

theorem vote_twice_from_none_witness:
  "Comment_findById (run (initial [''blog1'']) thread) ''c1'' = Some hello
   \<and> voteState hello (user_id bob) = NoVote
   \<and> map_option (\<lambda>c'. (voteState c' (user_id bob), upvotes c', downvotes c', voteScore c'))
       (Comment_findById
          (store (voteComment
             (store (voteComment (run (initial [''blog1'']) thread) bob ''c1''
                (voteTypeName Upvote) 4))
             bob ''c1'' (voteTypeName Upvote) 5)) ''c1'')
     = Some (NoVote, [], [], 0)"
proof -
  have h: "Comment_findById (run (initial [''blog1'']) thread) ''c1'' = Some hello"
    by (rule thread_find_hello)
  have n: "voteState hello (user_id bob) = NoVote"
    by (simp add: voteState_def hello_def)
  have "upvotes hello = [] \<and> downvotes hello = [] \<and> voteScore hello = 0"
    by (simp add: hello_def voteScore_def)
  then show ?thesis
    using h n vote_twice_from_none [OF h n, of Upvote 4 5] by simp
qed

section \<open>What an update changes\<close>

lemma replaceFirst_split:
  "find (\<lambda>d. cid d = i) cs = Some c \<Longrightarrow> cid c' = i
   \<Longrightarrow> \<exists>pre post. cs = pre @ c # post \<and> replaceFirst c' cs = pre @ c' # post"
proof (induction cs)
  case Nil
  then show ?case by simp
next
  case (Cons d ds)
  show ?case
  proof (cases "cid d = i")
    case True
    with Cons.prems have "d # ds = [] @ c # ds \<and> replaceFirst c' (d # ds) = [] @ c' # ds"
      by simp
    then show ?thesis by blast
  next
    case False
    with Cons obtain pre post where "ds = pre @ c # post" "replaceFirst c' ds = pre @ c' # post"
      by auto
    with False Cons.prems(2)
    have "d # ds = (d # pre) @ c # post \<and> replaceFirst c' (d # ds) = (d # pre) @ c' # post"
      by simp
    then show ?thesis by blast
  qed
qed

lemma edit_frame:
  assumes "Comment_findById s i = Some c"
    and "Comment_save s now (c\<lparr>content := x, isEdited := True, updatedAt := now\<rparr>) = Some (s', c')"
  shows "\<exists>pre post. comments s = pre @ c # post
           \<and> s' = s\<lparr>comments := pre @ c\<lparr>content := x, isEdited := True, updatedAt := now\<rparr> # post\<rparr>"
proof -
  let ?e = "c\<lparr>content := x, isEdited := True, updatedAt := now\<rparr>"
  have "find (\<lambda>d. cid d = i) (comments s) = Some c"
    using assms(1) by (simp add: Comment_findById_def)
  moreover have "cid ?e = i"
    using assms(1) by (simp add: findById_cid)
  ultimately obtain pre post
    where "comments s = pre @ c # post" "replaceFirst ?e (comments s) = pre @ ?e # post"
    using replaceFirst_split by blast
  moreover have "s' = s\<lparr>comments := replaceFirst ?e (comments s)\<rparr>"
    using assms(2) by (auto simp: Comment_save_def Let_def split: if_splits)
  ultimately show ?thesis by auto
qed

text \<open>
  Claim C10. A successful update, answered 200 by REST or broadcast as
  \<^verbatim>\<open>comment-updated\<close> by the socket handler, rewrites one document of the collection:
  the one found by the id, which keeps its id, author, blog, parent, vote arrays and
  creation date and takes the trimmed content, \<open>isEdited = True\<close> and the new
  \<open>updatedAt\<close>. Every other comment, and the Blog collection, stay as they were.
\<close>

theorem update_frame:
  "(\<forall>r. response (updateComment s usr i txt now) = Some r \<and> status r = 200 \<longrightarrow>
      (\<exists>pre c post. comments s = pre @ c # post \<and> Comment_findById s i = Some c \<and>
         store (updateComment s usr i txt now)
         = s\<lparr>comments :=
               pre @ c\<lparr>content := trim txt, isEdited := True, updatedAt := now\<rparr> # post\<rparr>))
   \<and> (\<forall>room c'. emitted (update_comment s usr i txt now) = [ToRoom room (CommentUpdated c')] \<longrightarrow>
      (\<exists>pre c post. comments s = pre @ c # post \<and> Comment_findById s i = Some c \<and>
         store (update_comment s usr i txt now)
         = s\<lparr>comments :=
               pre @ c\<lparr>content := trim txt, isEdited := True, updatedAt := now\<rparr> # post\<rparr>))"
proof (intro conjI allI impI)
  fix r
  assume "response (updateComment s usr i txt now) = Some r \<and> status r = 200"
  then obtain c s' c' where "Comment_findById s i = Some c"
    and "Comment_save s now (c\<lparr>content := trim txt, isEdited := True, updatedAt := now\<rparr>)
         = Some (s', c')"
    and "store (updateComment s usr i txt now) = s'"
    by (auto simp: updateComment_def respond_def Let_def split: option.splits if_splits)
  then show "\<exists>pre c post. comments s = pre @ c # post \<and> Comment_findById s i = Some c \<and>
         store (updateComment s usr i txt now)
         = s\<lparr>comments :=
               pre @ c\<lparr>content := trim txt, isEdited := True, updatedAt := now\<rparr> # post\<rparr>"
    using edit_frame by blast
next
  fix room c'
  assume "emitted (update_comment s usr i txt now) = [ToRoom room (CommentUpdated c')]"
  then obtain c s' c'' where "Comment_findById s i = Some c"
    and "Comment_save s now (c\<lparr>content := trim txt, isEdited := True, updatedAt := now\<rparr>)
         = Some (s', c'')"
    and "store (update_comment s usr i txt now) = s'"
    by (auto simp: update_comment_def emit_def Let_def split: option.splits if_splits)
  then show "\<exists>pre c post. comments s = pre @ c # post \<and> Comment_findById s i = Some c \<and>
         store (update_comment s usr i txt now)
         = s\<lparr>comments :=
               pre @ c\<lparr>content := trim txt, isEdited := True, updatedAt := now\<rparr> # post\<rparr>"
    using edit_frame by blast
qed

lemma thread_update_rest:
  "response (updateComment (run (initial [''blog1'']) thread) alice ''c1'' (0xA0 # js ''Edited'') 9)
   = Some (Reply 200 ''Comment updated successfully''
       (CommentBody (hello\<lparr>content := js ''Edited'', isEdited := True, updatedAt := 9\<rparr>)))"
  by (simp add: thread_store updateComment_def store_defs alice_def hello_def hi_def again_def)

lemma thread_update_socket:
  "emitted (update_comment (run (initial [''blog1'']) thread) bob ''c2'' (js ''Hey'') 9)
   = [ToRoom ''blog1'' (CommentUpdated (hi\<lparr>content := js ''Hey'', isEdited := True, updatedAt := 9\<rparr>))]"
  by (simp add: thread_store update_comment_def store_defs bob_def hello_def hi_def again_def)

theorem update_frame_witness:
  "response (updateComment (run (initial [''blog1'']) thread) alice ''c1'' (0xA0 # js ''Edited'') 9)
   = Some (Reply 200 ''Comment updated successfully''
       (CommentBody (hello\<lparr>content := js ''Edited'', isEdited := True, updatedAt := 9\<rparr>)))
   \<and> (\<exists>pre c post. comments (run (initial [''blog1'']) thread) = pre @ c # post
        \<and> Comment_findById (run (initial [''blog1'']) thread) ''c1'' = Some c
        \<and> store (updateComment (run (initial [''blog1'']) thread) alice ''c1'' (0xA0 # js ''Edited'') 9)
          = (run (initial [''blog1'']) thread)\<lparr>comments :=
               pre @ c\<lparr>content := trim (0xA0 # js ''Edited''), isEdited := True, updatedAt := 9\<rparr> # post\<rparr>)
   \<and> emitted (update_comment (run (initial [''blog1'']) thread) bob ''c2'' (js ''Hey'') 9)
     = [ToRoom ''blog1''
          (CommentUpdated (hi\<lparr>content := js ''Hey'', isEdited := True, updatedAt := 9\<rparr>))]
   \<and> (\<exists>pre c post. comments (run (initial [''blog1'']) thread) = pre @ c # post
        \<and> Comment_findById (run (initial [''blog1'']) thread) ''c2'' = Some c
        \<and> store (update_comment (run (initial [''blog1'']) thread) bob ''c2'' (js ''Hey'') 9)
          = (run (initial [''blog1'']) thread)\<lparr>comments :=
               pre @ c\<lparr>content := trim (js ''Hey''), isEdited := True, updatedAt := 9\<rparr> # post\<rparr>)"
proof -
  let ?S = "run (initial [''blog1'']) thread"
  let ?r = "Reply 200 ''Comment updated successfully''
       (CommentBody (hello\<lparr>content := js ''Edited'', isEdited := True, updatedAt := 9\<rparr>))"
  have "response (updateComment ?S alice ''c1'' (0xA0 # js ''Edited'') 9) = Some ?r \<and> status ?r = 200"
    by (simp add: thread_update_rest)
  with update_frame [of ?S alice "''c1''" "0xA0 # js ''Edited''" 9]
  have rest: "\<exists>pre c post. comments ?S = pre @ c # post
        \<and> Comment_findById ?S ''c1'' = Some c
        \<and> store (updateComment ?S alice ''c1'' (0xA0 # js ''Edited'') 9)
          = ?S\<lparr>comments :=
               pre @ c\<lparr>content := trim (0xA0 # js ''Edited''), isEdited := True, updatedAt := 9\<rparr> # post\<rparr>"
    by blast
  from update_frame [of ?S bob "''c2''" "js ''Hey''" 9]
    thread_update_socket
  have sock: "\<exists>pre c post. comments ?S = pre @ c # post
        \<and> Comment_findById ?S ''c2'' = Some c
        \<and> store (update_comment ?S bob ''c2'' (js ''Hey'') 9)
          = ?S\<lparr>comments :=
               pre @ c\<lparr>content := trim (js ''Hey''), isEdited := True, updatedAt := 9\<rparr> # post\<rparr>"
    by blast
  show ?thesis
    using rest sock thread_update_rest thread_update_socket by blast
qed

section \<open>What a delete removes\<close>

lemma length_deleteFirst:
  "c \<in> set cs \<Longrightarrow> cid c = i \<Longrightarrow> length (deleteFirst i cs) + 1 = length cs"
  by (induction cs) auto

lemma length_cascade:
  assumes "c \<in> set cs" and "cid c = i" and "parentComment c \<noteq> Some i"
  shows "length (deleteFirst i (filter (\<lambda>d. parentComment d \<noteq> Some i) cs))
         + length (filter (\<lambda>d. parentComment d = Some i) cs) + 1 = length cs"
proof -
  have "c \<in> set (filter (\<lambda>d. parentComment d \<noteq> Some i) cs)"
    using assms(1,3) by simp
  then have "length (deleteFirst i (filter (\<lambda>d. parentComment d \<noteq> Some i) cs)) + 1
             = length (filter (\<lambda>d. parentComment d \<noteq> Some i) cs)"
    using assms(2) by (rule length_deleteFirst)
  moreover have "length (filter (\<lambda>d. parentComment d = Some i) cs)
                 + length (filter (\<lambda>d. parentComment d \<noteq> Some i) cs) = length cs"
    by (rule sum_length_filter_compl)
  ultimately show ?thesis by linarith
qed

text \<open>
  Claim C3, as stated, at a reply that has a reply of its own: in the small thread Bob's
  comment \<open>c2\<close> has the parent \<open>c1\<close> and the reply \<open>c3\<close>. Deleting it, by REST or
  by socket, takes the collection from three comments to one: two entities are removed,
  not one.
\<close>

theorem delete_reply_counterexample:
  "map parentComment (filter (\<lambda>c. cid c = ''c2'') (comments (run (initial [''blog1'']) thread)))
   = [Some ''c1'']
   \<and> length (comments (run (initial [''blog1'']) thread)) = 3
   \<and> comments (store (deleteComment (run (initial [''blog1'']) thread) bob ''c2'')) = [hello]
   \<and> comments (store (delete_comment (run (initial [''blog1'']) thread) bob ''c2'')) = [hello]"
  by (simp add: thread_store deleteComment_def delete_comment_def store_defs bob_def hello_def
      hi_def again_def)

lemma cascade_filter:
  assumes "distinct (map cid cs)" and "c \<in> set cs" and "cid c = i"
  shows "deleteFirst i (filter (\<lambda>d. parentComment d \<noteq> Some i) cs)
         = filter (\<lambda>d. d \<noteq> c \<and> d \<notin> set (filter (\<lambda>d. parentComment d = Some i) cs)) cs"
proof -
  have "distinct (map cid (filter (\<lambda>d. parentComment d \<noteq> Some i) cs))"
    using assms(1) by (rule distinct_map_filter)
  then have "deleteFirst i (filter (\<lambda>d. parentComment d \<noteq> Some i) cs)
             = filter (\<lambda>d. cid d \<noteq> i) (filter (\<lambda>d. parentComment d \<noteq> Some i) cs)"
    by (rule deleteFirst_filter)
  also have "\<dots> = filter (\<lambda>d. parentComment d \<noteq> Some i \<and> cid d \<noteq> i) cs"
    by simp
  also have "\<dots> = filter (\<lambda>d. d \<noteq> c \<and> d \<notin> set (filter (\<lambda>d. parentComment d = Some i) cs)) cs"
  proof (rule filter_cong [OF refl])
    fix d
    assume d: "d \<in> set cs"
    have "cid d = i \<longleftrightarrow> d = c"
      using assms d by (auto simp: distinct_map dest: inj_onD)
    then show "(parentComment d \<noteq> Some i \<and> cid d \<noteq> i)
               = (d \<noteq> c \<and> d \<notin> set (filter (\<lambda>d. parentComment d = Some i) cs))"
      using d by auto
  qed
  finally show ?thesis .
qed

lemma length_cascade_self:
  assumes "distinct (map cid cs)" and "c \<in> set cs" and "cid c = i"
    and "parentComment c = Some i"
  shows "length (deleteFirst i (filter (\<lambda>d. parentComment d \<noteq> Some i) cs))
         + length (filter (\<lambda>d. parentComment d = Some i) cs) = length cs"
proof -
  have "i \<notin> cid ` set (filter (\<lambda>d. parentComment d \<noteq> Some i) cs)"
  proof
    assume "i \<in> cid ` set (filter (\<lambda>d. parentComment d \<noteq> Some i) cs)"
    then obtain d where d: "d \<in> set cs" "parentComment d \<noteq> Some i" "cid d = i"
      by auto
    then have "d = c"
      using assms(1,2,3) by (auto simp: distinct_map dest: inj_onD)
    with d(2) assms(4) show False by simp
  qed
  then have "deleteFirst i (filter (\<lambda>d. parentComment d \<noteq> Some i) cs)
             = filter (\<lambda>d. parentComment d \<noteq> Some i) cs"
    by (rule deleteFirst_absent)
  moreover have "length (filter (\<lambda>d. parentComment d = Some i) cs)
                 + length (filter (\<lambda>d. parentComment d \<noteq> Some i) cs) = length cs"
    by (rule sum_length_filter_compl)
  ultimately show ?thesis by simp
qed

lemma deleteComment_store:
  assumes "Comment_findById s i = Some c" and "authorized usr c"
  shows "comments (store (deleteComment s usr i))
         = deleteFirst i (filter (\<lambda>d. parentComment d \<noteq> Some i) (comments s))"
    and "comments (store (delete_comment s usr i))
         = deleteFirst i (filter (\<lambda>d. parentComment d \<noteq> Some i) (comments s))"
  using assms
  by (auto simp: deleteComment_def delete_comment_def respond_def emit_def authorized_def
      Comment_findByIdAndDelete_def Comment_deleteMany_def Let_def)

text \<open>
  Claim C3, amended. In every reachable store, a successful delete of a comment, by REST
  or by socket, removes the comment and its direct replies and nothing else, whether the
  comment is top-level or a reply: the cascade does not look at its parent. With N
  direct replies that is N + 1 entities, so a reply is removed alone exactly when it has
  no direct replies. (A comment stored as its own parent is one of its own N direct
  replies, and N entities go.)
\<close>

theorem delete_removes_comment_and_replies:
  assumes "Comment_findById (run (initial bs) rs) i = Some c" and "authorized usr c"
  shows "comments (store (deleteComment (run (initial bs) rs) usr i))
         = filter (\<lambda>d. d \<noteq> c \<and> d \<notin> set (directReplies (run (initial bs) rs) i))
             (comments (run (initial bs) rs))
       \<and> comments (store (delete_comment (run (initial bs) rs) usr i))
         = filter (\<lambda>d. d \<noteq> c \<and> d \<notin> set (directReplies (run (initial bs) rs) i))
             (comments (run (initial bs) rs))
       \<and> (parentComment c \<noteq> Some i \<longrightarrow>
            length (comments (store (deleteComment (run (initial bs) rs) usr i)))
              + (length (directReplies (run (initial bs) rs) i) + 1)
            = length (comments (run (initial bs) rs))
            \<and> length (comments (store (delete_comment (run (initial bs) rs) usr i)))
              + (length (directReplies (run (initial bs) rs) i) + 1)
            = length (comments (run (initial bs) rs)))
       \<and> (parentComment c = Some i \<longrightarrow>
            c \<in> set (directReplies (run (initial bs) rs) i)
            \<and> length (comments (store (deleteComment (run (initial bs) rs) usr i)))
              + length (directReplies (run (initial bs) rs) i)
            = length (comments (run (initial bs) rs))
            \<and> length (comments (store (delete_comment (run (initial bs) rs) usr i)))
              + length (directReplies (run (initial bs) rs) i)
            = length (comments (run (initial bs) rs)))"
proof -
  let ?S = "run (initial bs) rs"
  have dist: "distinct (map cid (comments ?S))"
    by (rule reachable_ids)
  have mem: "c \<in> set (comments ?S)" and id: "cid c = i"
    using assms(1) by (simp_all add: findById_mem findById_cid)
  note st = deleteComment_store [OF assms]
  have kept: "deleteFirst i (filter (\<lambda>d. parentComment d \<noteq> Some i) (comments ?S))
              = filter (\<lambda>d. d \<noteq> c \<and> d \<notin> set (directReplies ?S i)) (comments ?S)"
    unfolding directReplies_def using dist mem id by (rule cascade_filter)
  have other: "parentComment c \<noteq> Some i \<Longrightarrow>
      length (deleteFirst i (filter (\<lambda>d. parentComment d \<noteq> Some i) (comments ?S)))
      + (length (directReplies ?S i) + 1) = length (comments ?S)"
    using length_cascade [OF mem id] by (simp add: directReplies_def)
  have self: "parentComment c = Some i \<Longrightarrow>
      length (deleteFirst i (filter (\<lambda>d. parentComment d \<noteq> Some i) (comments ?S)))
      + length (directReplies ?S i) = length (comments ?S)"
    using length_cascade_self [OF dist mem id] by (simp add: directReplies_def)
  have own: "parentComment c = Some i \<Longrightarrow> c \<in> set (directReplies ?S i)"
    using mem by (simp add: directReplies_def)
  show ?thesis
    using kept other self own by (simp add: st)
qed

lemma self_parent_store:
  "run (initial []) selfParent
   = \<lparr>blogs = [], comments = [hello\<lparr>parentComment := Some ''c1''\<rparr>]\<rparr>"
  by (simp add: selfParent_def thread_defs handler_defs store_defs)

theorem delete_removes_comment_and_replies_witness:
  "Comment_findById (run (initial [''blog1'']) thread) ''c2'' = Some hi
   \<and> authorized bob hi
   \<and> parentComment hi = Some ''c1''
   \<and> directReplies (run (initial [''blog1'']) thread) ''c2'' = [again]
   \<and> comments (store (deleteComment (run (initial [''blog1'']) thread) bob ''c2''))
     = filter (\<lambda>d. d \<noteq> hi \<and> d \<notin> set (directReplies (run (initial [''blog1'']) thread) ''c2''))
         (comments (run (initial [''blog1'']) thread))
   \<and> length (comments (store (deleteComment (run (initial [''blog1'']) thread) bob ''c2'')))
       + (length (directReplies (run (initial [''blog1'']) thread) ''c2'') + 1)
     = length (comments (run (initial [''blog1'']) thread))
   \<and> Comment_findById (run (initial []) selfParent) ''c1''
     = Some (hello\<lparr>parentComment := Some ''c1''\<rparr>)
   \<and> authorized alice (hello\<lparr>parentComment := Some ''c1''\<rparr>)
   \<and> length (comments (store (delete_comment (run (initial []) selfParent) alice ''c1'')))
       + length (directReplies (run (initial []) selfParent) ''c1'')
     = length (comments (run (initial []) selfParent))"
proof -
  let ?S = "run (initial [''blog1'']) thread"
  let ?T = "run (initial []) selfParent"
  have h: "Comment_findById ?S ''c2'' = Some hi"
    by (simp add: thread_store Comment_findById_def hello_def hi_def)
  have a: "authorized bob hi"
    by (simp add: authorized_def bob_def hi_def)
  have p: "parentComment hi = Some ''c1''" and np: "parentComment hi \<noteq> Some ''c2''"
    by (simp_all add: hi_def)
  have r: "directReplies ?S ''c2'' = [again]"
    by (simp add: thread_store directReplies_def hello_def hi_def again_def)
  have h': "Comment_findById ?T ''c1'' = Some (hello\<lparr>parentComment := Some ''c1''\<rparr>)"
    by (simp add: self_parent_store Comment_findById_def hello_def)
  have a': "authorized alice (hello\<lparr>parentComment := Some ''c1''\<rparr>)"
    by (simp add: authorized_def alice_def hello_def)
  have p': "parentComment (hello\<lparr>parentComment := Some ''c1''\<rparr>) = Some ''c1''"
    by simp
  have k1: "comments (store (deleteComment ?S bob ''c2''))
     = filter (\<lambda>d. d \<noteq> hi \<and> d \<notin> set (directReplies ?S ''c2'')) (comments ?S)"
    using delete_removes_comment_and_replies [OF h a] by blast
  have k2: "length (comments (store (deleteComment ?S bob ''c2'')))
       + (length (directReplies ?S ''c2'') + 1) = length (comments ?S)"
    using delete_removes_comment_and_replies [OF h a] np by blast
  have k3: "length (comments (store (delete_comment ?T alice ''c1'')))
       + length (directReplies ?T ''c1'') = length (comments ?T)"
    using delete_removes_comment_and_replies [OF h' a'] p' by blast
  show ?thesis
    using h a p r k1 k2 h' a' k3 by blast
qed

section \<open>Creating under a reply\<close>

text \<open>
  Claim C4, as stated, at the third request of the small thread: Alice's create names
  \<open>c2\<close> as parent, which is itself a reply to \<open>c1\<close>. REST answers 201 and the
  socket handler broadcasts \<^verbatim>\<open>comment-created\<close>; both persist the new comment.
\<close>

theorem create_under_reply_counterexample:
  "map parentComment (filter (\<lambda>c. cid c = ''c2'') (comments (run (initial [''blog1'']) prelude)))
   = [Some ''c1'']
   \<and> createComment (run (initial [''blog1'']) prelude) alice (js ''Again'') ''blog1'' (Some ''c2'') ''c3'' 3
     = respond \<lparr>blogs = [''blog1''], comments = [hello, hi, again]\<rparr>
         201 ''Comment created successfully'' (CommentBody again)
   \<and> new_comment (run (initial [''blog1'']) prelude) alice (js ''Again'') ''blog1'' (Some ''c2'') ''c3'' 3
     = emit \<lparr>blogs = [''blog1''], comments = [hello, hi, again]\<rparr>
         (ToRoom ''blog1'' (CommentCreated again (Some ''c2'')))"
  by (simp add: prelude_store createComment_def new_comment_def store_defs alice_def hello_def
      hi_def again_def)

text \<open>
  Claim C4, amended. Neither transport asks whether the parent is top-level. A create
  request whose parent id names an existing comment, a reply included, on an existing
  blog, with content of 1 to 1000 code units after trimming and an unused id, is
  accepted: REST answers 201, the socket handler broadcasts, and both append exactly
  the new comment, whose parent is the named one.
\<close>

theorem create_under_existing_parent:
  assumes "Blog_findById s blogId" and "Comment_findById s p = Some par" and "p \<noteq> []"
    and "1 \<le> length (trim txt)" and "length (trim txt) \<le> 1000"
    and "Comment_findById s n = None"
  shows "createComment s usr txt blogId (Some p) n t
         = respond (s\<lparr>comments := comments s @ [new_Comment n t txt (user_id usr) blogId (Some p)]\<rparr>)
             201 ''Comment created successfully''
             (CommentBody (new_Comment n t txt (user_id usr) blogId (Some p)))
       \<and> new_comment s usr txt blogId (Some p) n t
         = emit (s\<lparr>comments := comments s @ [new_Comment n t txt (user_id usr) blogId (Some p)]\<rparr>)
             (ToRoom blogId (CommentCreated (new_Comment n t txt (user_id usr) blogId (Some p))
                (Some p)))"
  using assms
  by (simp add: createComment_def new_comment_def Comment_insert_def validate_def
      new_Comment_def truthy_def orNull_def Let_def)

theorem create_under_existing_parent_witness:
  "Blog_findById (run (initial [''blog1'']) prelude) ''blog1''
   \<and> Comment_findById (run (initial [''blog1'']) prelude) ''c2'' = Some hi
   \<and> parentComment hi = Some ''c1''
   \<and> length (trim (js ''Again'' @ [0x00A0])) = 5
   \<and> Comment_findById (run (initial [''blog1'']) prelude) ''c3'' = None
   \<and> new_Comment ''c3'' 3 (js ''Again'' @ [0x00A0]) (user_id alice) ''blog1'' (Some ''c2'') = again
   \<and> createComment (run (initial [''blog1'']) prelude) alice (js ''Again'' @ [0x00A0]) ''blog1''
       (Some ''c2'') ''c3'' 3
     = respond ((run (initial [''blog1'']) prelude)
           \<lparr>comments := comments (run (initial [''blog1'']) prelude) @ [again]\<rparr>)
         201 ''Comment created successfully'' (CommentBody again)"
proof -
  let ?S = "run (initial [''blog1'']) prelude"
  let ?txt = "js ''Again'' @ [0x00A0]"
  have b: "Blog_findById ?S ''blog1''"
    by (simp add: prelude_store Blog_findById_def)
  have f: "Comment_findById ?S ''c2'' = Some hi"
    by (simp add: prelude_store Comment_findById_def hello_def hi_def)
  have e: "''c2'' \<noteq> []"
    by simp
  have l: "length (trim ?txt) = 5"
    by (simp add: trim_def isSpace_def js_def)
  then have l1: "1 \<le> length (trim ?txt)" and l2: "length (trim ?txt) \<le> 1000"
    by simp_all
  have u: "Comment_findById ?S ''c3'' = None"
    by (simp add: prelude_store Comment_findById_def hello_def hi_def)
  have p: "parentComment hi = Some ''c1''"
    by (simp add: hi_def)
  have n: "new_Comment ''c3'' 3 ?txt (user_id alice) ''blog1'' (Some ''c2'') = again"
    by (simp add: new_Comment_def again_def alice_def trim_def isSpace_def js_def)
  have "createComment ?S alice ?txt ''blog1'' (Some ''c2'') ''c3'' 3
     = respond (?S\<lparr>comments := comments ?S @ [again]\<rparr>)
         201 ''Comment created successfully'' (CommentBody again)"
    using create_under_existing_parent [OF b f e l1 l2 u, of alice 3] unfolding n by blast
  then show ?thesis
    using b f p l u n by blast
qed

section \<open>The two transports side by side\<close>

text \<open>Update, delete and vote leave the same store behind on both transports.\<close>

lemma update_stores_agree:
  "store (updateComment s usr i txt now) = store (update_comment s usr i txt now)"
  by (simp add: updateComment_def update_comment_def respond_def emit_def Let_def
      split: option.splits)

lemma delete_stores_agree: "store (deleteComment s usr i) = store (delete_comment s usr i)"
  by (simp add: deleteComment_def delete_comment_def respond_def emit_def Let_def
      split: option.splits)

lemma vote_stores_agree:
  "store (voteComment s usr i v now) = store (vote_comment s usr i v now)"
  by (simp add: voteComment_def vote_comment_def respond_def emit_def Let_def
      split: option.splits)

text \<open>
  Claim C6 at two create requests. On a blog that does not exist, and under a parent
  that does not exist, \<^verbatim>\<open>createComment\<close> answers 404 and stores nothing, while the
  \<^verbatim>\<open>new-comment\<close> handler makes neither check: it stores the comment and broadcasts it.
\<close>

theorem create_checks_differ:
  "createComment (initial []) alice (js ''Hello'') ''blog1'' None ''c1'' 1
   = respond (initial []) 404 ''Blog post not found'' NoBody
   \<and> new_comment (initial []) alice (js ''Hello'') ''blog1'' None ''c1'' 1
     = emit \<lparr>blogs = [], comments = [hello]\<rparr> (ToRoom ''blog1'' (CommentCreated hello None))
   \<and> createComment (initial [''blog1'']) bob (js ''Hi'') ''blog1'' (Some ''c1'') ''c2'' 2
     = respond (initial [''blog1'']) 404 ''Parent comment not found'' NoBody
   \<and> new_comment (initial [''blog1'']) bob (js ''Hi'') ''blog1'' (Some ''c1'') ''c2'' 2
     = emit \<lparr>blogs = [''blog1''], comments = [hi]\<rparr>
         (ToRoom ''blog1'' (CommentCreated hi (Some ''c1'')))"
  by (simp add: createComment_def new_comment_def store_defs initial_def alice_def bob_def
      hello_def hi_def)

section \<open>Who is told of a mutation\<close>

text \<open>
  Claim C7, as stated, at Alice's first comment posted through REST: the create
  succeeds with 201 and nothing is emitted to the blog's room.
\<close>

theorem rest_create_counterexample:
  "createComment (initial [''blog1'']) alice (js ''Hello'') ''blog1'' None ''c1'' 1
   = \<lparr>store = \<lparr>blogs = [''blog1''], comments = [hello]\<rparr>,
      response = Some (Reply 201 ''Comment created successfully'' (CommentBody hello)),
      emitted = []\<rparr>"
  by (simp add: createComment_def store_defs initial_def alice_def hello_def)

text \<open>
  Claim C7, amended. A mutation applied through the REST controllers is broadcast to
  nobody: whatever the outcome, a controller answers its caller and emits no event. Only
  the socket handlers emit, each exactly one event per request.
\<close>

theorem rest_emits_nothing:
  "emitted (createComment s usr txt blogId parent n now) = []
   \<and> emitted (updateComment s usr i txt now) = []
   \<and> emitted (deleteComment s usr i) = []
   \<and> emitted (voteComment s usr i v now) = []
   \<and> length (emitted (new_comment s usr txt blogId parent n now)) = 1
   \<and> length (emitted (update_comment s usr i txt now)) = 1
   \<and> length (emitted (delete_comment s usr i)) = 1
   \<and> length (emitted (vote_comment s usr i v now)) = 1"
  by (simp add: handler_defs respond_def emit_def Let_def split: option.splits)

section \<open>Merging a created comment on the client\<close>

text \<open>
  Claim C9. For every list the component holds and every \<^verbatim>\<open>comment-created\<close> event:
  without a parent id (\<^verbatim>\<open>null\<close>, \<^verbatim>\<open>undefined\<close> or the empty string) the comment is
  put in front of the list; with a parent id, the list keeps its length and order, each
  top-level comment with that id keeps its replies and gets the comment added after
  them (a comment without a \<^verbatim>\<open>replies\<close> array gets the one-element array), and every
  other entry stays as it is; and when no top-level comment has that id the list is
  unchanged.
\<close>

theorem created_event_merge:
  "comment_created prev cm None = cm # prev
   \<and> comment_created prev cm (Some []) = cm # prev
   \<and> (p \<noteq> [] \<longrightarrow>
        length (comment_created prev cm (Some p)) = length prev
        \<and> (\<forall>k < length prev.
             comment_created prev cm (Some p) ! k
             = (if c_id (prev ! k) = p
                then CComment p (c_fields (prev ! k))
                       (Some ((case replies (prev ! k) of None \<Rightarrow> [] | Some rs \<Rightarrow> rs) @ [cm]))
                else prev ! k)))
   \<and> (p \<noteq> [] \<and> p \<notin> c_id ` set prev \<longrightarrow> comment_created prev cm (Some p) = prev)"
proof (intro conjI impI)
  show "comment_created prev cm None = cm # prev"
    by (simp add: comment_created_def truthy_def)
  show "comment_created prev cm (Some []) = cm # prev"
    by (simp add: comment_created_def truthy_def)
next
  assume "p \<noteq> []"
  then show "length (comment_created prev cm (Some p)) = length prev"
    by (simp add: comment_created_def truthy_def)
next
  assume "p \<noteq> []"
  then show "\<forall>k < length prev.
             comment_created prev cm (Some p) ! k
             = (if c_id (prev ! k) = p
                then CComment p (c_fields (prev ! k))
                       (Some ((case replies (prev ! k) of None \<Rightarrow> [] | Some rs \<Rightarrow> rs) @ [cm]))
                else prev ! k)"
    by (simp add: comment_created_def truthy_def orEmpty_def)
next
  assume "p \<noteq> [] \<and> p \<notin> c_id ` set prev"
  then have "p \<noteq> []" and "\<forall>c \<in> set prev. c_id c \<noteq> p"
    by auto
  then show "comment_created prev cm (Some p) = prev"
    by (simp add: comment_created_def truthy_def map_idI)
qed

text \<open>
  Bob's reply is already under Alice's comment when a second reply to it arrives, and
  an event for a parent the client does not hold.
\<close>

theorem created_event_merge_witness:
  "comment_created
     [CComment ''c1'' ''Hello'' (Some [CComment ''c2'' ''Hi'' None]), CComment ''c4'' ''Other'' None]
     (CComment ''c3'' ''Again'' None) (Some ''c1'')
   = [CComment ''c1'' ''Hello'' (Some [CComment ''c2'' ''Hi'' None, CComment ''c3'' ''Again'' None]),
      CComment ''c4'' ''Other'' None]
   \<and> ''c9'' \<notin> c_id ` set [CComment ''c1'' ''Hello'' (Some [CComment ''c2'' ''Hi'' None]),
                           CComment ''c4'' ''Other'' None]
   \<and> comment_created
       [CComment ''c1'' ''Hello'' (Some [CComment ''c2'' ''Hi'' None]), CComment ''c4'' ''Other'' None]
       (CComment ''c3'' ''Again'' None) (Some ''c9'')
     = [CComment ''c1'' ''Hello'' (Some [CComment ''c2'' ''Hi'' None]), CComment ''c4'' ''Other'' None]"
proof -
  let ?prev = "[CComment ''c1'' ''Hello'' (Some [CComment ''c2'' ''Hi'' None]),
                CComment ''c4'' ''Other'' None]"
  let ?cm = "CComment ''c3'' ''Again'' None"
  let ?new = "[CComment ''c1'' ''Hello'' (Some [CComment ''c2'' ''Hi'' None, ?cm]),
               CComment ''c4'' ''Other'' None]"
  have ne: "''c1'' \<noteq> []" "''c9'' \<noteq> []"
    by simp_all
  have len: "length (comment_created ?prev ?cm (Some ''c1'')) = 2"
    using created_event_merge [of ?prev ?cm "''c1''"] ne by simp
  have nth: "\<forall>k < 2. comment_created ?prev ?cm (Some ''c1'') ! k = ?new ! k"
    using created_event_merge [of ?prev ?cm "''c1''"] ne by (simp add: less_Suc_eq numeral_2_eq_2)
  have "comment_created ?prev ?cm (Some ''c1'') = ?new"
    using len nth by (intro nth_equalityI) simp_all
  moreover have out: "''c9'' \<notin> c_id ` set ?prev"
    by simp
  moreover have "comment_created ?prev ?cm (Some ''c9'') = ?prev"
    using created_event_merge [of ?prev ?cm "''c9''"] ne out by blast
  ultimately show ?thesis by blast
qed


end
